theory Spec2Isabelle
  imports Complex_Main "HOL-Library.Multiset"
begin

section \<open>Shared data: errors and JSON values\<close>

text \<open>
  Every exception the scripts can meet is a value. The external services (document
  readers, the generative model, the embedding model, the file system, the database)
  report their own failures with whatever \<open>error\<close> they choose; the scripts themselves
  raise \<open>JSONDecodeError\<close> (from \<^verbatim>\<open>json.loads\<close>) and \<open>AttributeError\<close> (from \<^verbatim>\<open>.get\<close> on
  a value that is not a dict).
\<close>

datatype error =
    ExtractionError
  | ServiceError
  | JSONDecodeError
  | AttributeError
  | OSError
  | DatabaseError
  | KeyboardInterrupt

text \<open>
  A decoded JSON document, as \<^verbatim>\<open>json.loads\<close> and the database driver hand it to Python:
  \<^verbatim>\<open>None\<close>, \<^verbatim>\<open>bool\<close>, a number, \<^verbatim>\<open>str\<close>, \<^verbatim>\<open>list\<close>, \<^verbatim>\<open>dict\<close> (an association list; a dict has
  each key once, and the first binding of a key is the one looked up).
\<close>

datatype json =
    JNull
  | JBool bool
  | JNum real
  | JStr string
  | JArr "json list"
  | JObj "(string \<times> json) list"

text \<open>Python truthiness, as \<^verbatim>\<open>if not text_to_embed\<close> tests it.\<close>

fun truthy :: "json \<Rightarrow> bool" where
  "truthy JNull = False"
| "truthy (JBool b) = b"
| "truthy (JNum x) = (x \<noteq> 0)"
| "truthy (JStr s) = (s \<noteq> [])"
| "truthy (JArr xs) = (xs \<noteq> [])"
| "truthy (JObj kvs) = (kvs \<noteq> [])"

text \<open>\<^verbatim>\<open>d.get(key, default)\<close>; a value that is not a dict has no \<^verbatim>\<open>get\<close>.\<close>

fun dict_get :: "json \<Rightarrow> string \<Rightarrow> json \<Rightarrow> error + json" where
  "dict_get (JObj kvs) k d = Inr (case map_of kvs k of Some v \<Rightarrow> v | None \<Rightarrow> d)"
| "dict_get _ k d = Inl AttributeError"

section \<open>Python string and path helpers\<close>

definition newline :: char where
  "newline = CHR 0x0A"

text \<open>\<^verbatim>\<open>s.endswith(suffix)\<close>\<close>

definition endswith :: "string \<Rightarrow> string \<Rightarrow> bool" where
  "endswith s suf = (length suf \<le> length s \<and> drop (length s - length suf) s = suf)"

text \<open>\<^verbatim>\<open>s.strip(chars)\<close>: drops every leading and every trailing character that is in \<open>chars\<close>.\<close>

definition py_strip :: "string \<Rightarrow> string \<Rightarrow> string" where
  "py_strip chars s =
     rev (dropWhile (\<lambda>c. c \<in> set chars) (rev (dropWhile (\<lambda>c. c \<in> set chars) s)))"

text \<open>\<^verbatim>\<open>sep.join(parts)\<close>\<close>

fun str_join :: "string \<Rightarrow> string list \<Rightarrow> string" where
  "str_join sep [] = []"
| "str_join sep [x] = x"
| "str_join sep (x # y # ys) = x @ sep @ str_join sep (y # ys)"

text \<open>\<^verbatim>\<open>s.rfind(c)\<close> for a single character: the last index of \<open>c\<close>, or \<open>-1\<close>.\<close>

fun rfind_from :: "char \<Rightarrow> string \<Rightarrow> int \<Rightarrow> int \<Rightarrow> int" where
  "rfind_from c [] i best = best"
| "rfind_from c (x # xs) i best = rfind_from c xs (i + 1) (if x = c then i else best)"

definition rfind :: "string \<Rightarrow> char \<Rightarrow> int" where
  "rfind s c = rfind_from c s 0 (-1)"

text \<open>
  \<^verbatim>\<open>os.path.splitext\<close> (POSIX): the extension starts at the last dot of the last path
  component, unless only dots precede it in that component.
  \<^verbatim>\<open>
  sepIndex = p.rfind('/'); dotIndex = p.rfind('.')
  if dotIndex > sepIndex:
      filenameIndex = sepIndex + 1
      while filenameIndex < dotIndex:
          if p[filenameIndex] != '.': return p[:dotIndex], p[dotIndex:]
          filenameIndex += 1
  return p, ''
  \<close>
\<close>

definition splitext :: "string \<Rightarrow> string \<times> string" where
  "splitext p =
     (let sepIndex = rfind p (CHR ''/''); dotIndex = rfind p (CHR ''.'') in
      if dotIndex > sepIndex \<and>
         list_ex (\<lambda>c. c \<noteq> CHR ''.'')
           (take (nat (dotIndex - (sepIndex + 1))) (drop (nat (sepIndex + 1)) p))
      then (take (nat dotIndex) p, drop (nat dotIndex) p)
      else (p, []))"

text \<open>\<^verbatim>\<open>os.path.join(a, b)\<close> (POSIX, two components).\<close>

definition path_join :: "string \<Rightarrow> string \<Rightarrow> string" where
  "path_join a b =
     (if b \<noteq> [] \<and> hd b = CHR ''/'' then b
      else if a = [] \<or> last a = CHR ''/'' then a @ b
      else a @ ''/'' @ b)"

section \<open>The storyboard converter (convert_storyboards.py)\<close>

text \<open>
  What the script reaches outside itself for, as parameters:
  \<^item> \<open>listdir\<close>: the names \<^verbatim>\<open>os.listdir(input_folder)\<close> returns, in the order it returns them;
  \<^item> \<open>pdf_pages\<close>: \<^verbatim>\<open>PdfReader(path).pages\<close> with each page's \<^verbatim>\<open>extract_text()\<close>
    (\<open>None\<close> when the page yields nothing), or the exception raised on the way;
  \<^item> \<open>pptx_slides\<close>: \<^verbatim>\<open>Presentation(path).slides\<close>, each slide the list of its shapes, a
    shape being its \<^verbatim>\<open>text\<close> when it has that attribute and \<open>None\<close> when it has not;
  \<^item> \<open>read_text\<close>: \<^verbatim>\<open>open(path, "r", encoding="utf-8").read()\<close>;
  \<^item> \<open>generate_content\<close>: the generative model called with the fixed conversion prompt
    and the given text; its reply's \<^verbatim>\<open>text\<close>, or the exception;
  \<^item> \<open>json_loads\<close>: \<^verbatim>\<open>json.loads\<close>, \<open>None\<close> when it raises;
  \<^item> \<open>open_write\<close>: the exception, if any, of opening an output path for writing.

  Creating the output folder and listing the input folder are taken to succeed.
  Characters are bytes here, so the prefix of 25000 characters that Python counts in
  code points is counted in bytes.
\<close>

record env =
  listdir :: "string list"
  pdf_pages :: "string \<Rightarrow> error + string option list"
  pptx_slides :: "string \<Rightarrow> error + string option list list"
  read_text :: "string \<Rightarrow> error + string"
  generate_content :: "string \<Rightarrow> error + string"
  json_loads :: "string \<Rightarrow> json option"
  open_write :: "string \<Rightarrow> error option"

text \<open>
  \<^verbatim>\<open>
  def extract_text_from_pdf(pdf_path):
      reader = PdfReader(pdf_path)
      return "\n".join([page.extract_text() or '' for page in reader.pages])
  \<close>
\<close>

definition extract_text_from_pdf :: "env \<Rightarrow> string \<Rightarrow> error + string" where
  "extract_text_from_pdf e pdf_path =
     (case pdf_pages e pdf_path of
        Inl err \<Rightarrow> Inl err
      | Inr pages \<Rightarrow>
          Inr (str_join [newline] (map (\<lambda>p. case p of None \<Rightarrow> [] | Some t \<Rightarrow> t) pages)))"

text \<open>
  \<^verbatim>\<open>
  def extract_text_from_pptx(pptx_path):
      prs = Presentation(pptx_path)
      text = ""
      for slide in prs.slides:
          for shape in slide.shapes:
              if hasattr(shape, "text"):
                  text += shape.text + "\n"
      return text
  \<close>
  The two loops, with the accumulator \<open>text\<close> passed along.
\<close>

fun shapes_loop :: "string option list \<Rightarrow> string \<Rightarrow> string" where
  "shapes_loop [] text = text"
| "shapes_loop (shape # shapes) text =
     shapes_loop shapes (case shape of Some t \<Rightarrow> text @ t @ [newline] | None \<Rightarrow> text)"

fun slides_loop :: "string option list list \<Rightarrow> string \<Rightarrow> string" where
  "slides_loop [] text = text"
| "slides_loop (slide # slides) text = slides_loop slides (shapes_loop slide text)"

definition extract_text_from_pptx :: "env \<Rightarrow> string \<Rightarrow> error + string" where
  "extract_text_from_pptx e pptx_path =
     (case pptx_slides e pptx_path of
        Inl err \<Rightarrow> Inl err
      | Inr slides \<Rightarrow> Inr (slides_loop slides []))"

text \<open>
  \<^verbatim>\<open>
  def convert_to_json_with_gemini(storyboard_text):
      response = model.generate_content([CONVERSION_PROMPT, storyboard_text[:25000]])
      json_response = response.text
      try:
          return json.loads(json_response)
      except Exception:
          json_response = json_response.strip('` \n')
          return json.loads(json_response)
  \<close>
\<close>

definition fence_chars :: string where
  "fence_chars = [CHR 0x60, CHR '' '', newline]"

definition convert_to_json_with_gemini :: "env \<Rightarrow> string \<Rightarrow> error + json" where
  "convert_to_json_with_gemini e storyboard_text =
     (case generate_content e (take 25000 storyboard_text) of
        Inl err \<Rightarrow> Inl err
      | Inr json_response \<Rightarrow>
          (case json_loads e json_response of
             Some v \<Rightarrow> Inr v
           | None \<Rightarrow>
               (case json_loads e (py_strip fence_chars json_response) of
                  Some v \<Rightarrow> Inr v
                | None \<Rightarrow> Inl JSONDecodeError)))"

text \<open>
  The batch driver. Its state is the output folder (path to written document) and the
  failures it printed.
  \<^verbatim>\<open>
  for filename in tqdm(os.listdir(input_folder)):
      if filename.endswith(".pdf"):    text = extract_text_from_pdf(join(input_folder, filename))
      elif filename.endswith(".pptx"): text = extract_text_from_pptx(join(input_folder, filename))
      elif filename.endswith(".txt"):  text = open(join(input_folder, filename)).read()
      else: continue
      try:
          json_data = convert_to_json_with_gemini(text)
          base_name = os.path.splitext(filename)[0]
          with open(join(output_folder, f"{base_name}.json"), "w") as out_f:
              json.dump(json_data, out_f, ...)
      except Exception as e:
          print(f"Failed to process {filename}: {e}")
  \<close>
\<close>

record folder_state =
  files :: "string \<rightharpoonup> json"
  failures :: "(string \<times> error) list"

text \<open>The \<^verbatim>\<open>if/elif/else\<close> chain: \<open>None\<close> is the \<^verbatim>\<open>continue\<close> of an unrecognised extension.\<close>

definition extract_text :: "env \<Rightarrow> string \<Rightarrow> string \<Rightarrow> (error + string) option" where
  "extract_text e input_folder filename =
     (if endswith filename ''.pdf'' then
        Some (extract_text_from_pdf e (path_join input_folder filename))
      else if endswith filename ''.pptx'' then
        Some (extract_text_from_pptx e (path_join input_folder filename))
      else if endswith filename ''.txt'' then
        Some (read_text e (path_join input_folder filename))
      else None)"

definition output_path :: "string \<Rightarrow> string \<Rightarrow> string" where
  "output_path output_folder filename =
     path_join output_folder (fst (splitext filename) @ ''.json'')"

text \<open>The \<^verbatim>\<open>try\<close> block with its \<^verbatim>\<open>except Exception\<close>.\<close>

definition convert_and_write ::
  "env \<Rightarrow> string \<Rightarrow> string \<Rightarrow> string \<Rightarrow> folder_state \<Rightarrow> folder_state" where
  "convert_and_write e output_folder filename text st =
     (case convert_to_json_with_gemini e text of
        Inl err \<Rightarrow> st\<lparr>failures := failures st @ [(filename, err)]\<rparr>
      | Inr json_data \<Rightarrow>
          (case open_write e (output_path output_folder filename) of
             Some err \<Rightarrow> st\<lparr>failures := failures st @ [(filename, err)]\<rparr>
           | None \<Rightarrow> st\<lparr>files := (files st)(output_path output_folder filename \<mapsto> json_data)\<rparr>))"

text \<open>
  The \<^verbatim>\<open>for\<close> loop. An exception raised by the extraction step is outside the
  \<^verbatim>\<open>try\<close>: it leaves the loop, and the function, at once (\<open>Some err\<close>).
\<close>

fun process_files ::
  "env \<Rightarrow> string \<Rightarrow> string \<Rightarrow> string list \<Rightarrow> folder_state \<Rightarrow> error option \<times> folder_state" where
  "process_files e input_folder output_folder [] st = (None, st)"
| "process_files e input_folder output_folder (filename # rest) st =
     (case extract_text e input_folder filename of
        None \<Rightarrow> process_files e input_folder output_folder rest st
      | Some (Inl err) \<Rightarrow> (Some err, st)
      | Some (Inr text) \<Rightarrow>
          process_files e input_folder output_folder rest
            (convert_and_write e output_folder filename text st))"

definition process_folder ::
  "env \<Rightarrow> string \<Rightarrow> string \<Rightarrow> folder_state \<Rightarrow> error option \<times> folder_state" where
  "process_folder e input_folder output_folder st =
     process_files e input_folder output_folder (listdir e) st"

section \<open>The storyboards table and the re-embedding job (migrate_embeddings.py)\<close>

text \<open>
  A row of the table \<^verbatim>\<open>storyboards\<close> has the columns the scripts name: \<^verbatim>\<open>id\<close>, \<^verbatim>\<open>content\<close>
  (JSON) and \<^verbatim>\<open>embedding\<close> (a vector, or NULL). The record is extensible: whatever other
  columns the table has are the record's extension, which no statement of the scripts
  mentions. A table is the list of its rows, in insertion order. Vector components are
  reals here; the database stores single-precision floats.
\<close>

type_synonym vector = "real list"

record storyboard =
  sb_id :: int
  content :: json
  embedding :: "vector option"

text \<open>
  Modelled from the spec: the field \<^verbatim>\<open>embeddingSchemeVersion\<close> of the spec's data model, as a
  further column of the table. No script reads or writes such a column; the extension is
  here only to show what the scripts' \<^verbatim>\<open>UPDATE\<close> does to a row that has one.
\<close>

record versioned_storyboard = storyboard +
  embeddingSchemeVersion :: nat

text \<open>\<^verbatim>\<open>SELECT id, content FROM storyboards;\<close>\<close>

definition select_id_content :: "'a storyboard_scheme list \<Rightarrow> (int \<times> json) list" where
  "select_id_content tbl = map (\<lambda>row. (sb_id row, content row)) tbl"

text \<open>\<^verbatim>\<open>UPDATE storyboards SET embedding = %s WHERE id = %s;\<close>\<close>

definition update_embedding ::
  "'a storyboard_scheme list \<Rightarrow> vector \<Rightarrow> int \<Rightarrow> 'a storyboard_scheme list" where
  "update_embedding tbl v i =
     map (\<lambda>row. if sb_id row = i then row\<lparr>embedding := Some v\<rparr> else row) tbl"

text \<open>
  The state of a run: the table as the run's open transaction sees it, and the inputs
  sent to the embedding service so far.
\<close>

record 'a job_state =
  working :: "'a storyboard_scheme list"
  sent :: "json list"

text \<open>
  \<^verbatim>\<open>
  def create_embedding(text):
      response = client.embeddings.create(model="text-embedding-3-large", input=text)
      return response.data[0].embedding
  \<close>
  The embedding service is the parameter \<open>svc\<close>: the vector it returns for an input, or
  the exception the call raises. The call is recorded in \<open>sent\<close>.
\<close>

definition create_embedding ::
  "(json \<Rightarrow> error + vector) \<Rightarrow> json \<Rightarrow> 'a job_state \<Rightarrow>
     (error + vector) \<times> 'a job_state" where
  "create_embedding svc text st = (svc text, st\<lparr>sent := sent st @ [text]\<rparr>)"

text \<open>
  \<^verbatim>\<open>
  for storyboard in storyboards_to_update:
      storyboard_id = storyboard[0]
      storyboard_content = storyboard[1]
      text_to_embed = storyboard_content.get('moduleName', '')
      if not text_to_embed:
          continue
      new_embedding = create_embedding(text_to_embed)
      cur.execute("UPDATE storyboards SET embedding = %s WHERE id = %s;", (..., storyboard_id))
  \<close>
  No statement of the loop is inside a \<^verbatim>\<open>try\<close>: an exception leaves the loop at once.
  The exceptions modelled are those of \<^verbatim>\<open>.get\<close> and of the embedding call; an interrupt of
  the run is the \<open>KeyboardInterrupt\<close> raised in the call in progress. The database
  statements themselves are taken to succeed (an exception of theirs would leave the
  loop the same way).
\<close>

fun reindex_loop ::
  "(json \<Rightarrow> error + vector) \<Rightarrow> (int \<times> json) list \<Rightarrow> 'a job_state \<Rightarrow>
     error option \<times> 'a job_state" where
  "reindex_loop svc [] st = (None, st)"
| "reindex_loop svc (storyboard # rest) st =
     (case dict_get (snd storyboard) ''moduleName'' (JStr []) of
        Inl err \<Rightarrow> (Some err, st)
      | Inr text_to_embed \<Rightarrow>
          if \<not> truthy text_to_embed then reindex_loop svc rest st
          else
            (case create_embedding svc text_to_embed st of
               (Inl err, st1) \<Rightarrow> (Some err, st1)
             | (Inr new_embedding, st1) \<Rightarrow>
                 reindex_loop svc rest
                   (st1\<lparr>working := update_embedding (working st1) new_embedding (fst storyboard)\<rparr>)))"

text \<open>
  The whole script. The loop runs inside \<^verbatim>\<open>with psycopg.connect(...) as conn\<close> and the
  only \<^verbatim>\<open>conn.commit()\<close> follows the loop: when the loop ends normally the working table
  becomes the stored one; when an exception leaves the block the connection rolls the
  transaction back and the stored table is the one the run started from.
\<close>

record 'a run =
  raised :: "error option"
  stored :: "'a storyboard_scheme list"
  requests :: "json list"

definition migrate_embeddings ::
  "(json \<Rightarrow> error + vector) \<Rightarrow> 'a storyboard_scheme list \<Rightarrow> 'a run" where
  "migrate_embeddings svc db =
     (case reindex_loop svc (select_id_content db) \<lparr>working = db, sent = []\<rparr> of
        (None, st) \<Rightarrow> \<lparr>raised = None, stored = working st, requests = sent st\<rparr>
      | (Some err, st) \<Rightarrow> \<lparr>raised = Some err, stored = db, requests = sent st\<rparr>)"

section \<open>The similarity query (test_vector_search.py)\<close>

text \<open>
  \<^verbatim>\<open>
  SELECT id, content, 1 - (embedding <=> %s::vector) AS similarity
  FROM storyboards
  ORDER BY embedding <=> %s::vector
  LIMIT %s;
  \<close>
  \<^verbatim>\<open><=>\<close> is the vector extension's cosine distance. It is strict (NULL for a NULL
  embedding) and raises an error when its arguments differ in dimension. Its value is a
  double-precision number: here a real (rounding is not modelled) or NaN, which is what
  the division by a zero norm gives. The database sorts NaN after every number and
  equal to itself, and arithmetic on NaN gives NaN.
\<close>

datatype float8 = Num real | NaN

definition dot :: "vector \<Rightarrow> vector \<Rightarrow> real" where
  "dot a b = (\<Sum>(x, y) \<leftarrow> zip a b. x * y)"

definition cosine_similarity :: "vector \<Rightarrow> vector \<Rightarrow> real" where
  "cosine_similarity a b = dot a b / sqrt (dot a a * dot b b)"

definition cosine_distance :: "vector \<Rightarrow> vector \<Rightarrow> float8" where
  "cosine_distance a b =
     (if dot a a * dot b b = 0 then NaN else Num (1 - cosine_similarity a b))"

text \<open>\<^verbatim>\<open>1 - x\<close> and the sort order of double-precision values.\<close>

fun one_minus :: "float8 \<Rightarrow> float8" where
  "one_minus (Num x) = Num (1 - x)"
| "one_minus NaN = NaN"

fun float8_le :: "float8 \<Rightarrow> float8 \<Rightarrow> bool" where
  "float8_le _ NaN = True"
| "float8_le NaN (Num b) = False"
| "float8_le (Num a) (Num b) = (a \<le> b)"

definition distance_op :: "vector option \<Rightarrow> vector \<Rightarrow> error + float8 option" where
  "distance_op emb q =
     (case emb of
        None \<Rightarrow> Inr None
      | Some v \<Rightarrow>
          if length v \<noteq> length q then Inl DatabaseError
          else Inr (Some (cosine_distance v q)))"

text \<open>Every row with its sort key; the first error ends the statement.\<close>

fun keyed_rows ::
  "'a storyboard_scheme list \<Rightarrow> vector \<Rightarrow> error + ('a storyboard_scheme \<times> float8 option) list" where
  "keyed_rows [] q = Inr []"
| "keyed_rows (row # rows) q =
     (case distance_op (embedding row) q of
        Inl err \<Rightarrow> Inl err
      | Inr d \<Rightarrow>
          (case keyed_rows rows q of
             Inl err \<Rightarrow> Inl err
           | Inr ks \<Rightarrow> Inr ((row, d) # ks)))"

text \<open>\<^verbatim>\<open>ORDER BY ... ASC\<close>: ascending, NULLs last.\<close>

fun nulls_last_le :: "float8 option \<Rightarrow> float8 option \<Rightarrow> bool" where
  "nulls_last_le _ None = True"
| "nulls_last_le None (Some b) = False"
| "nulls_last_le (Some a) (Some b) = float8_le a b"

text \<open>
  \<^verbatim>\<open>ORDER BY\<close> fixes the order of rows only as far as the sort key differs: rows with
  equal keys may come in any order. So the query has a list of admissible orderings,
  the permutations of the rows that are sorted by the key.
\<close>

fun interleave :: "'a \<Rightarrow> 'a list \<Rightarrow> 'a list list" where
  "interleave x [] = [[x]]"
| "interleave x (y # ys) = (x # y # ys) # map ((#) y) (interleave x ys)"

fun perms :: "'a list \<Rightarrow> 'a list list" where
  "perms [] = [[]]"
| "perms (x # xs) = concat (map (interleave x) (perms xs))"

definition orderings :: "('a \<times> float8 option) list \<Rightarrow> ('a \<times> float8 option) list list" where
  "orderings ks = filter (sorted_wrt (\<lambda>a b. nulls_last_le (snd a) (snd b))) (perms ks)"

text \<open>The select list: \<^verbatim>\<open>id, content, 1 - distance AS similarity\<close>.\<close>

definition select_row :: "'a storyboard_scheme \<times> float8 option \<Rightarrow> int \<times> json \<times> float8 option" where
  "select_row kr = (sb_id (fst kr), content (fst kr), map_option one_minus (snd kr))"

text \<open>
  The outcomes the statement may have on a table, for a query vector and a limit: a
  database error, or the first \<open>k\<close> rows of an admissible ordering.
\<close>

definition sql_query ::
  "'a storyboard_scheme list \<Rightarrow> vector \<Rightarrow> int \<Rightarrow> (error + (int \<times> json \<times> float8 option) list) list" where
  "sql_query tbl q k =
     (case keyed_rows tbl q of
        Inl err \<Rightarrow> [Inl err]
      | Inr ks \<Rightarrow>
          if k < 0 then [Inl DatabaseError]
          else map (\<lambda>p. Inr (map select_row (take (nat k) p))) (orderings ks))"

section \<open>Slide-deck extraction\<close>





section \<open>Parsing the generative reply\<close>

lemma dropWhile_fence_prefix:
  assumes "set pre \<subseteq> set chars" "body \<noteq> []" "hd body \<notin> set chars"
  shows "dropWhile (\<lambda>c. c \<in> set chars) (pre @ body @ post) = body @ post"
proof -
  have "dropWhile (\<lambda>c. c \<in> set chars) (pre @ body @ post)
          = dropWhile (\<lambda>c. c \<in> set chars) (body @ post)"
    using assms(1) by (intro dropWhile_append2) auto
  also have "\<dots> = body @ post"
    using assms(2,3) by (cases body) auto
  finally show ?thesis .
qed

lemma py_strip_fenced:
  assumes "set pre \<subseteq> set chars" "set post \<subseteq> set chars"
    and "body \<noteq> []" "hd body \<notin> set chars" "last body \<notin> set chars"
  shows "py_strip chars (pre @ body @ post) = body"
proof -
  have front: "dropWhile (\<lambda>c. c \<in> set chars) (pre @ body @ post) = body @ post"
    using assms by (intro dropWhile_fence_prefix) auto
  have "dropWhile (\<lambda>c. c \<in> set chars) (rev post @ rev body @ []) = rev body @ []"
    using assms by (intro dropWhile_fence_prefix) (auto simp: hd_rev)
  then show ?thesis
    by (simp add: py_strip_def front)
qed

text \<open>
  Claim C6, as amended. Given the reply of the generative service: a reply that parses
  directly is returned as parsed; otherwise the reply is parsed once more after
  \<^verbatim>\<open>strip('` \n')\<close>, which removes the leading and the trailing backticks, spaces and
  line feeds and nothing else, and the outcome of that second parse is the outcome of
  the conversion. In particular a reply made of a JSON text \<open>body\<close> with only backticks,
  spaces and line feeds before and after it (a triple-backtick fence with no language
  tag) is returned as \<open>body\<close> parses.
\<close>

theorem fenced_reply_parsed_by_one_retry:
  assumes "generate_content e (take 25000 storyboard_text) = Inr reply"
  shows "(\<forall>v. json_loads e reply = Some v \<longrightarrow>
            convert_to_json_with_gemini e storyboard_text = Inr v)
       \<and> (json_loads e reply = None \<longrightarrow>
            convert_to_json_with_gemini e storyboard_text =
              (case json_loads e (py_strip fence_chars reply) of
                 Some v \<Rightarrow> Inr v | None \<Rightarrow> Inl JSONDecodeError))
       \<and> (\<forall>pre post body v.
            reply = pre @ body @ post
            \<and> set pre \<subseteq> {CHR 0x60, CHR '' '', newline}
            \<and> set post \<subseteq> {CHR 0x60, CHR '' '', newline}
            \<and> body \<noteq> [] \<and> hd body \<notin> set fence_chars \<and> last body \<notin> set fence_chars
            \<and> json_loads e reply = None \<and> json_loads e body = Some v \<longrightarrow>
            convert_to_json_with_gemini e storyboard_text = Inr v)"
proof (intro conjI allI impI)
  fix v assume "json_loads e reply = Some v"
  with assms show "convert_to_json_with_gemini e storyboard_text = Inr v"
    by (simp add: convert_to_json_with_gemini_def)
next
  assume "json_loads e reply = None"
  with assms show "convert_to_json_with_gemini e storyboard_text =
      (case json_loads e (py_strip fence_chars reply) of
         Some v \<Rightarrow> Inr v | None \<Rightarrow> Inl JSONDecodeError)"
    by (simp add: convert_to_json_with_gemini_def)
next
  fix pre post body v
  assume h: "reply = pre @ body @ post
            \<and> set pre \<subseteq> {CHR 0x60, CHR '' '', newline}
            \<and> set post \<subseteq> {CHR 0x60, CHR '' '', newline}
            \<and> body \<noteq> [] \<and> hd body \<notin> set fence_chars \<and> last body \<notin> set fence_chars
            \<and> json_loads e reply = None \<and> json_loads e body = Some v"
  have "py_strip fence_chars (pre @ body @ post) = body"
    using h by (intro py_strip_fenced) (auto simp: fence_chars_def)
  moreover have "reply = pre @ body @ post"
    using h by simp
  ultimately have strip: "py_strip fence_chars reply = body"
    by (simp only:)
  have direct: "json_loads e reply = None" and retry: "json_loads e body = Some v"
    using h by blast+
  show "convert_to_json_with_gemini e storyboard_text = Inr v"
    unfolding convert_to_json_with_gemini_def
    by (simp only: assms direct strip retry sum.case option.case)
qed

text \<open>A reply that is \<^verbatim>\<open>{}\<close> on a line of its own between two fences.\<close>

theorem fenced_reply_parsed_by_one_retry_witness:
  "convert_to_json_with_gemini
     \<lparr>listdir = [], pdf_pages = (\<lambda>p. Inl ExtractionError),
      pptx_slides = (\<lambda>p. Inl ExtractionError), read_text = (\<lambda>p. Inl OSError),
      generate_content = (\<lambda>t. Inr ([CHR 0x60, CHR 0x60, CHR 0x60, newline] @ ''{}'' @ [newline, CHR 0x60, CHR 0x60, CHR 0x60])),
      json_loads = (\<lambda>s. if s = ''{}'' then Some (JObj []) else None),
      open_write = (\<lambda>p. None)\<rparr> ''Module one'' = Inr (JObj [])"
proof -
  let ?e = "\<lparr>listdir = [], pdf_pages = (\<lambda>p. Inl ExtractionError),
      pptx_slides = (\<lambda>p. Inl ExtractionError), read_text = (\<lambda>p. Inl OSError),
      generate_content = (\<lambda>t. Inr ([CHR 0x60, CHR 0x60, CHR 0x60, newline] @ ''{}'' @ [newline, CHR 0x60, CHR 0x60, CHR 0x60])),
      json_loads = (\<lambda>s. if s = ''{}'' then Some (JObj []) else None),
      open_write = (\<lambda>p. None)\<rparr>"
  let ?reply = "[CHR 0x60, CHR 0x60, CHR 0x60, newline] @ ''{}'' @ [newline, CHR 0x60, CHR 0x60, CHR 0x60]"
  have gen: "generate_content ?e (take 25000 ''Module one'') = Inr ?reply"
    by simp
  have hyps: "?reply = [CHR 0x60, CHR 0x60, CHR 0x60, newline] @ ''{}'' @ [newline, CHR 0x60, CHR 0x60, CHR 0x60]
            \<and> set [CHR 0x60, CHR 0x60, CHR 0x60, newline] \<subseteq> {CHR 0x60, CHR '' '', newline}
            \<and> set [newline, CHR 0x60, CHR 0x60, CHR 0x60] \<subseteq> {CHR 0x60, CHR '' '', newline}
            \<and> ''{}'' \<noteq> [] \<and> hd ''{}'' \<notin> set fence_chars \<and> last ''{}'' \<notin> set fence_chars
            \<and> json_loads ?e ?reply = None \<and> json_loads ?e ''{}'' = Some (JObj [])"
    by (simp add: fence_chars_def newline_def)
  from fenced_reply_parsed_by_one_retry [OF gen, THEN conjunct2, THEN conjunct2, rule_format, OF hyps]
  show ?thesis .
qed

text \<open>
  A reply whose opening fence carries the language tag \<^verbatim>\<open>json\<close>: the strip leaves the tag
  in front of the JSON text, and the second parse (of a text that no JSON parser
  accepts) fails. A tab after the closing fence: the strip removes nothing at that end.
  The parser here accepts the text \<^verbatim>\<open>{}\<close> and rejects the others it is asked about.
\<close>

theorem tagged_fence_counterexample:
  "py_strip fence_chars
     ([CHR 0x60, CHR 0x60, CHR 0x60] @ ''json'' @ [newline] @ ''{}'' @ [newline, CHR 0x60, CHR 0x60, CHR 0x60])
     = ''json'' @ [newline] @ ''{}''
 \<and> convert_to_json_with_gemini
     \<lparr>listdir = [], pdf_pages = (\<lambda>p. Inl ExtractionError),
      pptx_slides = (\<lambda>p. Inl ExtractionError), read_text = (\<lambda>p. Inl OSError),
      generate_content = (\<lambda>t. Inr ([CHR 0x60, CHR 0x60, CHR 0x60] @ ''json'' @ [newline] @ ''{}''
                                    @ [newline, CHR 0x60, CHR 0x60, CHR 0x60])),
      json_loads = (\<lambda>s. if s = ''{}'' then Some (JObj []) else None),
      open_write = (\<lambda>p. None)\<rparr> ''Module one'' = Inl JSONDecodeError
 \<and> py_strip fence_chars
     ([CHR 0x60, CHR 0x60, CHR 0x60] @ ''{}'' @ [CHR 0x60, CHR 0x60, CHR 0x60, CHR 0x09])
     = ''{}'' @ [CHR 0x60, CHR 0x60, CHR 0x60, CHR 0x09]"
  by (simp add: convert_to_json_with_gemini_def py_strip_def fence_chars_def newline_def)

section \<open>The batch driver\<close>

subsection \<open>Output names\<close>

lemma rfind_from_absent: "c \<notin> set s \<Longrightarrow> rfind_from c s i best = best"
  by (induction s arbitrary: i best) auto

lemma rfind_from_last:
  "c \<notin> set ys \<Longrightarrow> rfind_from c (xs @ c # ys) i best = i + int (length xs)"
  by (induction xs arbitrary: i best) (auto simp: rfind_from_absent)

lemma splitext_known_extension:
  assumes "CHR ''/'' \<notin> set b" "\<exists>c\<in>set b. c \<noteq> CHR ''.''"
    and "CHR ''.'' \<notin> set x" "CHR ''/'' \<notin> set x"
  shows "splitext (b @ CHR ''.'' # x) = (b, CHR ''.'' # x)"
proof -
  have sep: "rfind (b @ CHR ''.'' # x) (CHR ''/'') = -1"
    using assms by (simp add: rfind_def rfind_from_absent)
  have dot: "rfind (b @ CHR ''.'' # x) (CHR ''.'') = int (length b)"
    using assms by (simp add: rfind_def rfind_from_last)
  show ?thesis
    using assms(2) by (simp add: splitext_def sep dot list_ex_iff)
qed

lemma output_path_known_extension:
  assumes "CHR ''/'' \<notin> set b" "\<exists>c\<in>set b. c \<noteq> CHR ''.''"
  shows "output_path out (b @ ''.pdf'') = path_join out (b @ ''.json'')"
    and "output_path out (b @ ''.pptx'') = path_join out (b @ ''.json'')"
    and "output_path out (b @ ''.txt'') = path_join out (b @ ''.json'')"
  using assms by (simp_all add: output_path_def splitext_known_extension)

subsection \<open>The loop over the input folder\<close>

lemma process_files_append:
  "process_files e i out (xs @ ys) st =
     (case process_files e i out xs st of
        (Some err, st1) \<Rightarrow> (Some err, st1)
      | (None, st1) \<Rightarrow> process_files e i out ys st1)"
  by (induction xs arbitrary: st) (auto split: option.splits sum.splits prod.splits)

lemma convert_and_write_other_path:
  "output_path out f \<noteq> p \<Longrightarrow> files (convert_and_write e out f t st) p = files st p"
  by (simp add: convert_and_write_def split: sum.splits option.splits)

lemma process_files_other_paths:
  "\<forall>g\<in>set ys. extract_text e i g \<noteq> None \<longrightarrow> output_path out g \<noteq> p \<Longrightarrow>
     files (snd (process_files e i out ys st)) p = files st p"
  by (induction ys arbitrary: st)
     (auto simp: convert_and_write_other_path split: option.splits sum.splits)

lemma extraction_failure_leaves_loop:
  "extract_text e inp f = Some (Inl err) \<Longrightarrow>
     process_files e inp out (f # rest) st = (Some err, st)"
  by simp

lemma conversion_failure_is_logged_and_skipped:
  "extract_text e inp f = Some (Inr t) \<Longrightarrow> convert_to_json_with_gemini e t = Inl err \<Longrightarrow>
     process_files e inp out (f # rest) st =
       process_files e inp out rest (st\<lparr>failures := failures st @ [(f, err)]\<rparr>)"
  by (simp add: convert_and_write_def)

text \<open>
  Claim C3. The claim is that a failure on any single file, an extraction failure
  included, is caught for that file and the rest of the batch is processed. The loop
  does that for a failure of the conversion or of the write (the lemma above); the
  extraction step is outside the \<^verbatim>\<open>try\<close>. Here a folder lists a PDF that cannot be read and
  then a readable text file: the run ends with the PDF's exception and nothing is
  written for the text file, which on its own (the lemma below) is converted.
\<close>

theorem corrupt_file_aborts_batch:
  "process_folder
     \<lparr>listdir = [''broken.pdf'', ''notes.txt''],
      pdf_pages = (\<lambda>p. Inl ExtractionError),
      pptx_slides = (\<lambda>p. Inl ExtractionError),
      read_text = (\<lambda>p. Inr ''Lesson one''),
      generate_content = (\<lambda>t. Inr ''{}''),
      json_loads = (\<lambda>s. if s = ''{}'' then Some (JObj []) else None),
      open_write = (\<lambda>p. None)\<rparr>
     ''storyboards_input'' ''storyboards_json'' \<lparr>files = Map.empty, failures = []\<rparr>
   = (Some ExtractionError, \<lparr>files = Map.empty, failures = []\<rparr>)"
  by (simp add: process_folder_def extract_text_def endswith_def extract_text_from_pdf_def)

lemma readable_file_alone_is_converted:
  "process_folder
     \<lparr>listdir = [''notes.txt''],
      pdf_pages = (\<lambda>p. Inl ExtractionError),
      pptx_slides = (\<lambda>p. Inl ExtractionError),
      read_text = (\<lambda>p. Inr ''Lesson one''),
      generate_content = (\<lambda>t. Inr ''{}''),
      json_loads = (\<lambda>s. if s = ''{}'' then Some (JObj []) else None),
      open_write = (\<lambda>p. None)\<rparr>
     ''storyboards_input'' ''storyboards_json'' \<lparr>files = Map.empty, failures = []\<rparr>
   = (None, \<lparr>files = [''storyboards_json/notes.json'' \<mapsto> JObj []], failures = []\<rparr>)"
  by (simp add: process_folder_def extract_text_def endswith_def convert_and_write_def
      convert_to_json_with_gemini_def output_path_def splitext_def rfind_def path_join_def)

text \<open>
  Claim C10. A file name made of a base (with no slash and not made of dots only) and
  one of the three recognised extensions is written to the output folder as the base
  with \<^verbatim>\<open>.json\<close>, whatever the extension. And in a run that goes through the whole
  folder, what is stored at a converted file's output path is the document of that file
  whenever no later processed file has the same output path: a later file overwrites an
  earlier one of the same base name.
\<close>

theorem output_named_by_base_name_last_write_wins:
  "(CHR ''/'' \<notin> set b \<and> (\<exists>c\<in>set b. c \<noteq> CHR ''.'') \<longrightarrow>
      output_path out (b @ ''.pdf'') = path_join out (b @ ''.json'')
    \<and> output_path out (b @ ''.pptx'') = path_join out (b @ ''.json'')
    \<and> output_path out (b @ ''.txt'') = path_join out (b @ ''.json''))
 \<and> (fst (process_folder e inp out st) = None
      \<and> listdir e = before @ f # after
      \<and> extract_text e inp f = Some (Inr doc)
      \<and> convert_to_json_with_gemini e doc = Inr json_data
      \<and> open_write e (output_path out f) = None
      \<and> (\<forall>g\<in>set after. extract_text e inp g \<noteq> None \<longrightarrow> output_path out g \<noteq> output_path out f)
    \<longrightarrow> files (snd (process_folder e inp out st)) (output_path out f) = Some json_data)"
proof (intro conjI impI)
  assume "CHR ''/'' \<notin> set b \<and> (\<exists>c\<in>set b. c \<noteq> CHR ''.'')"
  then show "output_path out (b @ ''.pdf'') = path_join out (b @ ''.json'')"
    and "output_path out (b @ ''.pptx'') = path_join out (b @ ''.json'')"
    and "output_path out (b @ ''.txt'') = path_join out (b @ ''.json'')"
    by (simp_all add: output_path_known_extension)
next
  assume h: "fst (process_folder e inp out st) = None
      \<and> listdir e = before @ f # after
      \<and> extract_text e inp f = Some (Inr doc)
      \<and> convert_to_json_with_gemini e doc = Inr json_data
      \<and> open_write e (output_path out f) = None
      \<and> (\<forall>g\<in>set after. extract_text e inp g \<noteq> None \<longrightarrow> output_path out g \<noteq> output_path out f)"
  obtain r1 st1 where first: "process_files e inp out before st = (r1, st1)"
    by (cases "process_files e inp out before st")
  have run: "process_folder e inp out st =
       (case r1 of Some err \<Rightarrow> (Some err, st1)
        | None \<Rightarrow> process_files e inp out (f # after) st1)"
    using h first by (simp add: process_folder_def process_files_append split: option.splits)
  have "r1 = None"
  proof (cases r1)
    case (Some err)
    with run h show ?thesis by simp
  qed simp
  let ?st2 = "convert_and_write e out f doc st1"
  have rest: "process_folder e inp out st = process_files e inp out after ?st2"
    using run \<open>r1 = None\<close> h by simp
  have "files ?st2 (output_path out f) = Some json_data"
    using h by (simp add: convert_and_write_def)
  moreover have "files (snd (process_files e inp out after ?st2)) (output_path out f)
      = files ?st2 (output_path out f)"
    using h by (intro process_files_other_paths) auto
  ultimately show "files (snd (process_folder e inp out st)) (output_path out f) = Some json_data"
    by (simp add: rest)
qed

text \<open>
  \<^verbatim>\<open>a.pdf\<close> then \<^verbatim>\<open>a.txt\<close>: both go to \<^verbatim>\<open>out/a.json\<close>, which in the end holds the document of
  \<^verbatim>\<open>a.txt\<close>.
\<close>

theorem output_named_by_base_name_last_write_wins_witness:
  "output_path ''out'' ''a.pdf'' = ''out/a.json''
 \<and> output_path ''out'' ''a.txt'' = ''out/a.json''
 \<and> files (snd (process_folder
       \<lparr>listdir = [''a.pdf'', ''a.txt''],
        pdf_pages = (\<lambda>p. Inr [Some ''P'']),
        pptx_slides = (\<lambda>p. Inl ExtractionError),
        read_text = (\<lambda>p. Inr ''T''),
        generate_content = (\<lambda>t. if t = ''P'' then Inr ''1'' else Inr ''2''),
        json_loads = (\<lambda>s. if s = ''1'' then Some (JNum 1) else if s = ''2'' then Some (JNum 2) else None),
        open_write = (\<lambda>p. None)\<rparr>
       ''in'' ''out'' \<lparr>files = Map.empty, failures = []\<rparr>)) ''out/a.json'' = Some (JNum 2)"
proof -
  let ?e = "\<lparr>listdir = [''a.pdf'', ''a.txt''],
        pdf_pages = (\<lambda>p. Inr [Some ''P'']),
        pptx_slides = (\<lambda>p. Inl ExtractionError),
        read_text = (\<lambda>p. Inr ''T''),
        generate_content = (\<lambda>t. if t = ''P'' then Inr ''1'' else Inr ''2''),
        json_loads = (\<lambda>s. if s = ''1'' then Some (JNum 1) else if s = ''2'' then Some (JNum 2) else None),
        open_write = (\<lambda>p. None)\<rparr>"
  let ?st = "\<lparr>files = Map.empty, failures = []\<rparr>"
  note inst = output_named_by_base_name_last_write_wins
    [where b = "''a''" and out = "''out''" and e = ?e and inp = "''in''" and st = ?st
       and before = "[''a.pdf'']" and f = "''a.txt''" and after = "[]"
       and doc = "''T''" and json_data = "JNum 2"]
  have base: "CHR ''/'' \<notin> set ''a'' \<and> (\<exists>c\<in>set ''a''. c \<noteq> CHR ''.'')"
    by simp
  have join: "path_join ''out'' ''a.json'' = ''out/a.json''"
    by (simp add: path_join_def)
  have ext_txt: "extract_text ?e ''in'' ''a.txt'' = Some (Inr ''T'')"
    by (simp add: extract_text_def endswith_def)
  have ext_pdf: "extract_text ?e ''in'' ''a.pdf'' = Some (Inr ''P'')"
    by (simp add: extract_text_def endswith_def extract_text_from_pdf_def)
  have conv: "convert_to_json_with_gemini ?e ''T'' = Inr (JNum 2)"
    by (simp add: convert_to_json_with_gemini_def)
  have completes: "fst (process_folder ?e ''in'' ''out'' ?st) = None"
    by (simp add: process_folder_def ext_txt ext_pdf)
  have run: "fst (process_folder ?e ''in'' ''out'' ?st) = None
      \<and> listdir ?e = [''a.pdf''] @ ''a.txt'' # []
      \<and> extract_text ?e ''in'' ''a.txt'' = Some (Inr ''T'')
      \<and> convert_to_json_with_gemini ?e ''T'' = Inr (JNum 2)
      \<and> open_write ?e (output_path ''out'' ''a.txt'') = None
      \<and> (\<forall>g\<in>set []. extract_text ?e ''in'' g \<noteq> None \<longrightarrow>
            output_path ''out'' g \<noteq> output_path ''out'' ''a.txt'')"
    using ext_txt conv completes by simp
  from inst [THEN conjunct1, rule_format, OF base] inst [THEN conjunct2, rule_format, OF run]
  show ?thesis
    by (simp add: join)
qed

section \<open>The re-embedding job\<close>

lemma update_embedding_columns:
  "map sb_id (update_embedding tbl v i) = map sb_id tbl"
  "map content (update_embedding tbl v i) = map content tbl"
  "map storyboard.more (update_embedding tbl v i) = map storyboard.more tbl"
  "length (update_embedding tbl v i) = length tbl"
  by (simp_all add: update_embedding_def)

lemma update_embedding_nth:
  "n < length tbl \<Longrightarrow>
     embedding (update_embedding tbl v i ! n) =
       (if sb_id (tbl ! n) = i then Some v else embedding (tbl ! n))"
  by (simp add: update_embedding_def)

lemma reindex_loop_columns:
  "reindex_loop svc its st = (r, st') \<Longrightarrow>
     map sb_id (working st') = map sb_id (working st)
   \<and> map content (working st') = map content (working st)
   \<and> map storyboard.more (working st') = map storyboard.more (working st)"
proof (induction its arbitrary: st)
  case Nil
  then show ?case by simp
next
  case (Cons it its)
  then show ?case
    by (auto simp: create_embedding_def update_embedding_columns
        split: sum.splits if_splits)
qed

lemma reindex_loop_length:
  "reindex_loop svc its st = (r, st') \<Longrightarrow> length (working st') = length (working st)"
  using reindex_loop_columns [of svc its st r st'] by (metis length_map)

lemma reindex_loop_sent_truthy:
  "\<forall>t\<in>set (sent st). truthy t \<Longrightarrow> \<forall>t\<in>set (sent (snd (reindex_loop svc its st))). truthy t"
proof (induction its arbitrary: st)
  case Nil
  then show ?case by simp
next
  case (Cons it its)
  show ?case
  proof (cases "dict_get (snd it) ''moduleName'' (JStr [])")
    case (Inl err)
    with Cons.prems show ?thesis by simp
  next
    case (Inr t)
    show ?thesis
    proof (cases "truthy t")
      case False
      with Inr Cons show ?thesis by simp
    next
      case True
      show ?thesis
      proof (cases "svc t")
        case (Inl err)
        with True Inr Cons.prems show ?thesis
          by (simp add: create_embedding_def)
      next
        case (Inr v)
        have "\<forall>t\<in>set (sent (snd (reindex_loop svc its
                (st\<lparr>sent := sent st @ [t],
                    working := update_embedding (working st) v (fst it)\<rparr>)))). truthy t"
          using True Cons.prems by (intro Cons.IH) simp
        with True Inr \<open>dict_get (snd it) ''moduleName'' (JStr []) = Inr t\<close> show ?thesis
          by (simp add: create_embedding_def)
      qed
    qed
  qed
qed

lemma reindex_loop_provenance:
  "reindex_loop svc its st = (r, st') \<Longrightarrow> n < length (working st) \<Longrightarrow>
     embedding (working st' ! n) = embedding (working st ! n)
   \<or> (\<exists>t v. truthy t \<and> svc t = Inr v \<and> embedding (working st' ! n) = Some v)"
proof (induction its arbitrary: st)
  case Nil
  then show ?case by simp
next
  case (Cons it its)
  show ?case
  proof (cases "dict_get (snd it) ''moduleName'' (JStr [])")
    case (Inl err)
    with Cons.prems show ?thesis by simp
  next
    case t: (Inr t)
    show ?thesis
    proof (cases "truthy t")
      case False
      with t Cons show ?thesis by simp
    next
      case True
      show ?thesis
      proof (cases "svc t")
        case (Inl err)
        with True t Cons.prems show ?thesis
          by (auto simp: create_embedding_def)
      next
        case (Inr v)
        let ?st1 = "st\<lparr>sent := sent st @ [t],
                    working := update_embedding (working st) v (fst it)\<rparr>"
        have run: "reindex_loop svc its ?st1 = (r, st')"
          using True t Inr Cons.prems by (simp add: create_embedding_def)
        have n1: "n < length (working ?st1)"
          using Cons.prems by (simp add: update_embedding_columns)
        from Cons.IH [OF run n1] show ?thesis
        proof
          assume "embedding (working st' ! n) = embedding (working ?st1 ! n)"
          then show ?thesis
            using Cons.prems(2) True Inr by (auto simp: update_embedding_nth)
        next
          assume "\<exists>t v. truthy t \<and> svc t = Inr v \<and> embedding (working st' ! n) = Some v"
          then show ?thesis by blast
        qed
      qed
    qed
  qed
qed

lemma reindex_loop_committed:
  assumes "reindex_loop svc its st = (None, st')" "distinct (map fst its)"
    and "n < length (working st)"
  shows "case map_of its (sb_id (working st ! n)) of
           None \<Rightarrow> embedding (working st' ! n) = embedding (working st ! n)
         | Some c \<Rightarrow>
             (\<exists>t. dict_get c ''moduleName'' (JStr []) = Inr t \<and>
                (if truthy t then \<exists>v. svc t = Inr v \<and> embedding (working st' ! n) = Some v
                 else embedding (working st' ! n) = embedding (working st ! n)))"
  using assms
proof (induction its arbitrary: st)
  case Nil
  then show ?case by simp
next
  case (Cons it its)
  obtain i c where it: "it = (i, c)" by (cases it)
  have fresh: "map_of its i = None"
    using Cons.prems(2) it by (simp add: map_of_eq_None_iff image_iff)
  have dist: "distinct (map fst its)"
    using Cons.prems(2) by simp
  show ?case
  proof (cases "dict_get c ''moduleName'' (JStr [])")
    case (Inl err)
    with Cons.prems it show ?thesis by simp
  next
    case t: (Inr t)
    show ?thesis
    proof (cases "truthy t")
      case False
      then have run: "reindex_loop svc its st = (None, st')"
        using Cons.prems(1) it t by simp
      from Cons.IH [OF run dist Cons.prems(3)] show ?thesis
        using it t False fresh by (auto split: option.splits)
    next
      case True
      show ?thesis
      proof (cases "svc t")
        case (Inl err)
        with True t it Cons.prems show ?thesis
          by (simp add: create_embedding_def)
      next
        case (Inr v)
        let ?st1 = "st\<lparr>sent := sent st @ [t],
                    working := update_embedding (working st) v i\<rparr>"
        have run: "reindex_loop svc its ?st1 = (None, st')"
          using True t Inr it Cons.prems by (simp add: create_embedding_def)
        have n1: "n < length (working ?st1)"
          using Cons.prems by (simp add: update_embedding_columns)
        have same_id: "sb_id (working ?st1 ! n) = sb_id (working st ! n)"
          using Cons.prems(3) by (simp add: update_embedding_def)
        have emb1: "embedding (working ?st1 ! n) =
            (if sb_id (working st ! n) = i then Some v else embedding (working st ! n))"
          using Cons.prems(3) by (simp add: update_embedding_nth)
        from Cons.IH [OF run dist n1] show ?thesis
          using it t True Inr fresh same_id emb1 by (auto split: option.splits)
      qed
    qed
  qed
qed




text \<open>
  Claim C1, as amended. A run is one transaction. When anything raises during the
  loop, the stored table is the one the run started from. In every case the stored
  rows keep their ids, contents and other columns, and each stored embedding is either
  the one the row had before the run or a whole vector the service returned for a
  non-empty text. When nothing raises (and ids are unique), every row with a non-empty
  \<^verbatim>\<open>moduleName\<close> has the vector the service returned for it and every other row has the
  embedding it had before.
\<close>

theorem run_is_one_transaction:
  "(raised (migrate_embeddings svc db) \<noteq> None \<longrightarrow> stored (migrate_embeddings svc db) = db)
 \<and> map sb_id (stored (migrate_embeddings svc db)) = map sb_id db
 \<and> map content (stored (migrate_embeddings svc db)) = map content db
 \<and> map storyboard.more (stored (migrate_embeddings svc db)) = map storyboard.more db
 \<and> (\<forall>n<length db.
       embedding (stored (migrate_embeddings svc db) ! n) = embedding (db ! n)
     \<or> (\<exists>t v. truthy t \<and> svc t = Inr v
           \<and> embedding (stored (migrate_embeddings svc db) ! n) = Some v))
 \<and> (raised (migrate_embeddings svc db) = None \<and> distinct (map sb_id db) \<longrightarrow>
      (\<forall>n<length db. \<exists>t.
         dict_get (content (db ! n)) ''moduleName'' (JStr []) = Inr t
       \<and> (if truthy t
           then \<exists>v. svc t = Inr v \<and> embedding (stored (migrate_embeddings svc db) ! n) = Some v
           else embedding (stored (migrate_embeddings svc db) ! n) = embedding (db ! n))))"
proof -
  obtain r st' where loop:
    "reindex_loop svc (select_id_content db) \<lparr>working = db, sent = []\<rparr> = (r, st')"
    by (cases "reindex_loop svc (select_id_content db) \<lparr>working = db, sent = []\<rparr>")
  have res: "migrate_embeddings svc db =
      (case r of None \<Rightarrow> \<lparr>raised = None, stored = working st', requests = sent st'\<rparr>
       | Some err \<Rightarrow> \<lparr>raised = Some err, stored = db, requests = sent st'\<rparr>)"
    by (simp add: migrate_embeddings_def loop)
  have cols: "map sb_id (working st') = map sb_id db"
    "map content (working st') = map content db"
    "map storyboard.more (working st') = map storyboard.more db"
    using reindex_loop_columns [OF loop] by simp_all
  have prov: "embedding (working st' ! n) = embedding (db ! n)
     \<or> (\<exists>t v. truthy t \<and> svc t = Inr v \<and> embedding (working st' ! n) = Some v)"
    if "n < length db" for n
    using reindex_loop_provenance [OF loop] that by simp
  have committed: "\<exists>t. dict_get (content (db ! n)) ''moduleName'' (JStr []) = Inr t
       \<and> (if truthy t then \<exists>v. svc t = Inr v \<and> embedding (working st' ! n) = Some v
           else embedding (working st' ! n) = embedding (db ! n))"
    if "r = None" "distinct (map sb_id db)" "n < length db" for n
  proof -
    have run: "reindex_loop svc (select_id_content db) \<lparr>working = db, sent = []\<rparr> = (None, st')"
      using loop that(1) by simp
    have d: "distinct (map fst (select_id_content db))"
      using that(2) by (simp add: select_id_content_def comp_def)
    have "map_of (select_id_content db) (sb_id (db ! n)) = Some (content (db ! n))"
      using that(3) d
      by (intro map_of_is_SomeI) (auto simp: select_id_content_def comp_def intro!: image_eqI [where x = "db ! n"])
    moreover have "n < length (working \<lparr>working = db, sent = []\<rparr>)"
      using that(3) by simp
    ultimately show ?thesis
      using reindex_loop_committed [OF run d, of n] by auto
  qed
  show ?thesis
  proof (cases r)
    case None
    have st: "stored (migrate_embeddings svc db) = working st'"
      and ok: "raised (migrate_embeddings svc db) = None"
      using res None by simp_all
    show ?thesis
      unfolding st ok using cols prov committed [OF None] by blast
  next
    case (Some err)
    with res show ?thesis by simp
  qed
qed

text \<open>
  Three rows, each with a module name and a prior embedding; the service fails on the
  second. The run raises, the first row's new embedding is not kept, and the third row
  is never sent to the service.
\<close>

theorem failure_stops_run_counterexample:
  "migrate_embeddings (\<lambda>t. if t = JStr ''B'' then Inl ServiceError else Inr [1, 0])
     [\<lparr>sb_id = 1, content = JObj [(''moduleName'', JStr ''A'')], embedding = Some [0, 1]\<rparr>,
      \<lparr>sb_id = 2, content = JObj [(''moduleName'', JStr ''B'')], embedding = Some [0, 1]\<rparr>,
      \<lparr>sb_id = 3, content = JObj [(''moduleName'', JStr ''C'')], embedding = Some [0, 1]\<rparr>]
   = \<lparr>raised = Some ServiceError,
      stored =
        [\<lparr>sb_id = 1, content = JObj [(''moduleName'', JStr ''A'')], embedding = Some [0, 1]\<rparr>,
         \<lparr>sb_id = 2, content = JObj [(''moduleName'', JStr ''B'')], embedding = Some [0, 1]\<rparr>,
         \<lparr>sb_id = 3, content = JObj [(''moduleName'', JStr ''C'')], embedding = Some [0, 1]\<rparr>],
      requests = [JStr ''A'', JStr ''B'']\<rparr>"
  by (simp add: migrate_embeddings_def select_id_content_def create_embedding_def
      update_embedding_def)

text \<open>
  A run that raises at its second row leaves the table as it was; a run that does not
  raise gives the row with a module name its new vector and leaves the row with an
  empty module name alone.
\<close>

theorem run_is_one_transaction_witness:
  "stored (migrate_embeddings (\<lambda>t. if t = JStr ''B'' then Inl ServiceError else Inr [1, 0])
     [\<lparr>sb_id = 1, content = JObj [(''moduleName'', JStr ''A'')], embedding = None\<rparr>,
      \<lparr>sb_id = 2, content = JObj [(''moduleName'', JStr ''B'')], embedding = None\<rparr>])
   = [\<lparr>sb_id = 1, content = JObj [(''moduleName'', JStr ''A'')], embedding = None\<rparr>,
      \<lparr>sb_id = 2, content = JObj [(''moduleName'', JStr ''B'')], embedding = None\<rparr>]
 \<and> embedding (stored (migrate_embeddings (\<lambda>t. Inr [1, 0])
     [\<lparr>sb_id = 1, content = JObj [(''moduleName'', JStr ''A'')], embedding = None\<rparr>,
      \<lparr>sb_id = 2, content = JObj [(''moduleName'', JStr '''')], embedding = Some [0, 1]\<rparr>]) ! 0)
   = Some [1, 0]
 \<and> embedding (stored (migrate_embeddings (\<lambda>t. Inr [1, 0])
     [\<lparr>sb_id = 1, content = JObj [(''moduleName'', JStr ''A'')], embedding = None\<rparr>,
      \<lparr>sb_id = 2, content = JObj [(''moduleName'', JStr '''')], embedding = Some [0, 1]\<rparr>]) ! 1)
   = Some [0, 1]"
proof -
  let ?bad = "\<lambda>t. if t = JStr ''B'' then Inl ServiceError else Inr [1, 0 :: real]"
  let ?db1 = "[\<lparr>sb_id = 1, content = JObj [(''moduleName'', JStr ''A'')], embedding = None\<rparr>,
      \<lparr>sb_id = 2, content = JObj [(''moduleName'', JStr ''B'')], embedding = None\<rparr>]"
  let ?good = "\<lambda>t :: json. Inr [1, 0 :: real] :: error + vector"
  let ?db2 = "[\<lparr>sb_id = 1, content = JObj [(''moduleName'', JStr ''A'')], embedding = None\<rparr>,
      \<lparr>sb_id = 2, content = JObj [(''moduleName'', JStr '''')], embedding = Some [0, 1]\<rparr>]"
  have fails: "raised (migrate_embeddings ?bad ?db1) \<noteq> None"
    by (simp add: migrate_embeddings_def select_id_content_def create_embedding_def)
  have passes: "raised (migrate_embeddings ?good ?db2) = None \<and> distinct (map sb_id ?db2)"
    by (simp add: migrate_embeddings_def select_id_content_def create_embedding_def)
  have rolled: "stored (migrate_embeddings ?bad ?db1) = ?db1"
    using run_is_one_transaction [of ?bad ?db1] fails by blast
  have each: "\<forall>n<length ?db2. \<exists>t.
         dict_get (content (?db2 ! n)) ''moduleName'' (JStr []) = Inr t
       \<and> (if truthy t
           then \<exists>v. ?good t = Inr v \<and> embedding (stored (migrate_embeddings ?good ?db2) ! n) = Some v
           else embedding (stored (migrate_embeddings ?good ?db2) ! n) = embedding (?db2 ! n))"
    using run_is_one_transaction [of ?good ?db2] passes by blast
  have "embedding (stored (migrate_embeddings ?good ?db2) ! 0) = Some [1, 0]"
    using each [rule_format, of 0] by auto
  moreover have "embedding (stored (migrate_embeddings ?good ?db2) ! 1) = Some [0, 1]"
    using each [rule_format, of 1] by auto
  ultimately show ?thesis
    using rolled by simp
qed

text \<open>
  Claim C8, as amended. \<^verbatim>\<open>create_embedding\<close> checks nothing: it sends the text it is given
  to the embedding service and its outcome is the service's. The re-embedding job
  guards the call: every text it sends is non-empty (truthy), a row whose \<^verbatim>\<open>moduleName\<close>
  is missing or empty being skipped.
\<close>

theorem job_sends_no_empty_text:
  "fst (create_embedding svc t st) = svc t
 \<and> sent (snd (create_embedding svc t st)) = sent st @ [t]
 \<and> (\<forall>x\<in>set (requests (migrate_embeddings svc db)). truthy x)"
proof -
  have "\<forall>x\<in>set (sent (snd (reindex_loop svc (select_id_content db)
            \<lparr>working = db, sent = []\<rparr>))). truthy x"
    by (intro reindex_loop_sent_truthy) simp
  then have "\<forall>x\<in>set (requests (migrate_embeddings svc db)). truthy x"
    by (auto simp: migrate_embeddings_def split: prod.splits option.splits)
  then show ?thesis
    by (simp add: create_embedding_def)
qed

theorem job_sends_no_empty_text_witness:
  "requests (migrate_embeddings (\<lambda>t. Inr [1, 0])
     [\<lparr>sb_id = 1, content = JObj [(''moduleName'', JStr '''')], embedding = None\<rparr>,
      \<lparr>sb_id = 2, content = JObj [(''title'', JStr ''T'')], embedding = None\<rparr>,
      \<lparr>sb_id = 3, content = JObj [(''moduleName'', JStr ''Onboarding'')], embedding = None\<rparr>])
   = [JStr ''Onboarding'']
 \<and> truthy (JStr ''Onboarding'')"
proof -
  let ?run = "migrate_embeddings (\<lambda>t. Inr [1, 0])
     [\<lparr>sb_id = 1, content = JObj [(''moduleName'', JStr '''')], embedding = None\<rparr>,
      \<lparr>sb_id = 2, content = JObj [(''title'', JStr ''T'')], embedding = None\<rparr>,
      \<lparr>sb_id = 3, content = JObj [(''moduleName'', JStr ''Onboarding'')], embedding = None\<rparr>]"
  have req: "requests ?run = [JStr ''Onboarding'']"
    by (simp add: migrate_embeddings_def select_id_content_def create_embedding_def)
  then have "JStr ''Onboarding'' \<in> set (requests ?run)"
    by simp
  with job_sends_no_empty_text [THEN conjunct2, THEN conjunct2] have "truthy (JStr ''Onboarding'')"
    by (rule bspec)
  with req show ?thesis
    by (simp only: simp_thms)
qed

text \<open>
  \<^verbatim>\<open>create_embedding\<close> given the empty string sends it and returns what the service
  returns; and the job sends a module name that is a single space.
\<close>

theorem empty_text_is_sent_counterexample:
  "fst (create_embedding (\<lambda>t. Inr [1, 0]) (JStr '''') \<lparr>working = ([] :: storyboard list), sent = []\<rparr>)
     = Inr [1, 0]
 \<and> sent (snd (create_embedding (\<lambda>t. Inr [1, 0]) (JStr '''')
       \<lparr>working = ([] :: storyboard list), sent = []\<rparr>)) = [JStr '''']
 \<and> requests (migrate_embeddings (\<lambda>t. Inr [1, 0])
       [\<lparr>sb_id = 1, content = JObj [(''moduleName'', JStr '' '')], embedding = None\<rparr>])
     = [JStr '' '']"
  by (simp add: create_embedding_def migrate_embeddings_def select_id_content_def)

section \<open>The similarity query\<close>

subsection \<open>Admissible orderings\<close>

lemma mset_interleave:
  "zs \<in> set (interleave x ys) \<Longrightarrow> mset zs = add_mset x (mset ys)"
  by (induction ys arbitrary: zs) auto

lemma interleave_head: "x # ys \<in> set (interleave x ys)"
  by (cases ys) simp_all

lemma interleave_split: "as @ x # bs \<in> set (interleave x (as @ bs))"
  by (induction as) (simp_all add: interleave_head)

lemma perms_iff_mset: "p \<in> set (perms xs) \<longleftrightarrow> mset p = mset xs"
proof (induction xs arbitrary: p)
  case Nil
  then show ?case by simp
next
  case (Cons x xs)
  show ?case
  proof
    assume "p \<in> set (perms (x # xs))"
    then obtain ys where "ys \<in> set (perms xs)" "p \<in> set (interleave x ys)"
      by auto
    then show "mset p = mset (x # xs)"
      using Cons.IH [of ys] by (simp add: mset_interleave)
  next
    assume m: "mset p = mset (x # xs)"
    then have "x \<in> set p"
      by (metis list.set_intros(1) mset_eq_setD)
    then obtain as bs where p: "p = as @ x # bs"
      by (auto simp: in_set_conv_decomp)
    with m have "mset (as @ bs) = mset xs"
      by simp
    then have "as @ bs \<in> set (perms xs)"
      using Cons.IH by blast
    then show "p \<in> set (perms (x # xs))"
      using p interleave_split [of as x bs] by auto
  qed
qed

lemma float8_le_total: "float8_le a b \<or> float8_le b a"
  by (cases a; cases b) auto


lemma float8_le_antisym: "float8_le a b \<Longrightarrow> float8_le b a \<Longrightarrow> a = b"
  by (cases a; cases b) auto

lemma nulls_last_le_total: "nulls_last_le a b \<or> nulls_last_le b a"
  using float8_le_total by (cases a; cases b) auto


lemma nulls_last_le_antisym: "nulls_last_le a b \<Longrightarrow> nulls_last_le b a \<Longrightarrow> a = b"
  using float8_le_antisym by (cases a; cases b) auto


lemma orderings_iff:
  "p \<in> set (orderings ks) \<longleftrightarrow>
     mset p = mset ks \<and> sorted_wrt (\<lambda>a b. nulls_last_le (snd a) (snd b)) p"
  by (auto simp: orderings_def perms_iff_mset)


lemma sorted_wrt_unique:
  assumes "\<And>a b. R a b \<Longrightarrow> R b a \<Longrightarrow> a = b"
  shows "sorted_wrt R xs \<Longrightarrow> sorted_wrt R ys \<Longrightarrow> mset xs = mset ys \<Longrightarrow> xs = ys"
proof (induction xs arbitrary: ys)
  case Nil
  then show ?case by simp
next
  case (Cons x xs)
  then obtain y ys' where ys: "ys = y # ys'"
    by (cases ys) auto
  have "x = y"
  proof (rule ccontr)
    assume ne: "x \<noteq> y"
    have "x \<in> set ys" "y \<in> set (x # xs)"
      using Cons.prems(3) ys by (metis list.set_intros(1) mset_eq_setD)+
    with ne ys have "x \<in> set ys'" "y \<in> set xs"
      by auto
    with Cons.prems(1,2) ys have "R y x" "R x y"
      by auto
    with assms ne show False
      by blast
  qed
  with Cons ys show ?case
    by auto
qed

lemma orderings_same_keys:
  assumes "p1 \<in> set (orderings ks)" "p2 \<in> set (orderings ks)"
  shows "map snd p1 = map snd p2"
proof (rule sorted_wrt_unique [where R = nulls_last_le])
  show "\<And>a b. nulls_last_le a b \<Longrightarrow> nulls_last_le b a \<Longrightarrow> a = b"
    by (rule nulls_last_le_antisym)
  show "sorted_wrt nulls_last_le (map snd p1)" "sorted_wrt nulls_last_le (map snd p2)"
    using assms by (simp_all add: orderings_iff sorted_wrt_map)
  show "mset (map snd p1) = mset (map snd p2)"
    using assms by (simp add: orderings_iff)
qed

subsection \<open>Sort keys\<close>


lemma keyed_rows_match:
  "\<forall>r\<in>set tbl. \<forall>v. embedding r = Some v \<longrightarrow> length v = length q \<Longrightarrow>
     keyed_rows tbl q =
       Inr (map (\<lambda>r. (r, map_option (\<lambda>v. cosine_distance v q) (embedding r))) tbl)"
  by (induction tbl) (auto simp: distance_op_def split: option.splits)

lemma nulls_last_le_refl: "nulls_last_le a a"
  using nulls_last_le_total [of a a] by simp

lemma sql_query_no_mismatch:
  assumes "0 \<le> k" "\<forall>r\<in>set tbl. \<forall>v. embedding r = Some v \<longrightarrow> length v = length q"
  shows "sql_query tbl q k =
     map (\<lambda>p. Inr (map select_row (take (nat k) p)))
       (orderings (map (\<lambda>r. (r, map_option (\<lambda>v. cosine_distance v q) (embedding r))) tbl))"
  using assms by (simp add: sql_query_def keyed_rows_match)



subsection \<open>Unit vectors of the plane\<close>

lemma dot_unit:
  "dot [1, 0] [1, 0] = 1" "dot [0, 1] [0, 1] = 1" "dot [-1, 0] [-1, 0] = 1"
  "dot [0, 1] [1, 0] = 0" "dot [-1, 0] [1, 0] = -1"
  by (simp_all add: dot_def)

lemma cosine_distance_unit:
  "cosine_distance [1, 0] [1, 0] = Num 0"
  "cosine_distance [0, 1] [1, 0] = Num 1"
  "cosine_distance [-1, 0] [1, 0] = Num 2"
  by (simp_all add: cosine_distance_def cosine_similarity_def dot_unit)


lemma in_set_mapI: "x \<in> set xs \<Longrightarrow> f x \<in> set (map f xs)"
  by simp

text \<open>
  Claim C7, as amended. The query orders by distance and by nothing else. All its
  results on a table carry the same sequence of scores; but two rows with the same
  embedding may come in either order, whichever was inserted first.
\<close>

theorem tied_rows_in_either_order:
  "(\<forall>rows1 rows2.
      Inr rows1 \<in> set (sql_query tbl q k) \<and> Inr rows2 \<in> set (sql_query tbl q k) \<longrightarrow>
      map (\<lambda>row. snd (snd row)) rows1 = map (\<lambda>row. snd (snd row)) rows2)
 \<and> (2 \<le> k \<and> embedding a = embedding b
      \<and> (\<forall>v. embedding a = Some v \<longrightarrow> length v = length q) \<longrightarrow>
      Inr [(sb_id a, content a, map_option (\<lambda>v. one_minus (cosine_distance v q)) (embedding a)),
           (sb_id b, content b, map_option (\<lambda>v. one_minus (cosine_distance v q)) (embedding b))]
        \<in> set (sql_query [a, b] q k)
    \<and> Inr [(sb_id b, content b, map_option (\<lambda>v. one_minus (cosine_distance v q)) (embedding b)),
           (sb_id a, content a, map_option (\<lambda>v. one_minus (cosine_distance v q)) (embedding a))]
        \<in> set (sql_query [a, b] q k))"
proof (intro conjI allI impI)
  fix rows1 rows2
  assume h: "Inr rows1 \<in> set (sql_query tbl q k) \<and> Inr rows2 \<in> set (sql_query tbl q k)"
  show "map (\<lambda>row. snd (snd row)) rows1 = map (\<lambda>row. snd (snd row)) rows2"
  proof (cases "keyed_rows tbl q")
    case (Inl err)
    with h show ?thesis
      by (simp add: sql_query_def)
  next
    case (Inr ks)
    show ?thesis
    proof (cases "k < 0")
      case True
      with h Inr show ?thesis
        by (simp add: sql_query_def)
    next
      case False
      with h Inr obtain p1 p2 where p: "p1 \<in> set (orderings ks)" "p2 \<in> set (orderings ks)"
        and rows: "rows1 = map select_row (take (nat k) p1)"
          "rows2 = map select_row (take (nat k) p2)"
        by (auto simp: sql_query_def)
      have scores: "map (\<lambda>row. snd (snd row)) (map select_row (take n p)) =
          map (map_option one_minus) (take n (map snd p))"
        for n and p :: "('a storyboard_scheme \<times> float8 option) list"
        by (simp add: take_map select_row_def comp_def)
      from orderings_same_keys [OF p] show ?thesis
        by (simp only: rows scores)
    qed
  qed
next
  let ?f = "\<lambda>r. map_option (\<lambda>v. cosine_distance v q) (embedding r)"
  let ?row = "\<lambda>r. (sb_id r, content r, map_option (\<lambda>v. one_minus (cosine_distance v q)) (embedding r))"
  assume h: "2 \<le> k \<and> embedding a = embedding b
      \<and> (\<forall>v. embedding a = Some v \<longrightarrow> length v = length q)"
  then have k: "0 \<le> k" and all: "\<forall>r\<in>set [a, b]. \<forall>v. embedding r = Some v \<longrightarrow> length v = length q"
    by auto
  have query: "sql_query [a, b] q k =
      map (\<lambda>p. Inr (map select_row (take (nat k) p))) (orderings [(a, ?f a), (b, ?f b)])"
    using sql_query_no_mismatch [OF k all] by simp
  have tie: "?f a = ?f b"
    using h by simp
  have ab: "[(a, ?f a), (b, ?f b)] \<in> set (orderings [(a, ?f a), (b, ?f b)])"
    and ba: "[(b, ?f b), (a, ?f a)] \<in> set (orderings [(a, ?f a), (b, ?f b)])"
    using tie by (simp_all add: orderings_iff nulls_last_le_refl)
  have k2: "2 \<le> nat k"
    using h by linarith
  have eq_ab: "map select_row (take (nat k) [(a, ?f a), (b, ?f b)]) = [?row a, ?row b]"
    and eq_ba: "map select_row (take (nat k) [(b, ?f b), (a, ?f a)]) = [?row b, ?row a]"
    using k2 by (simp_all add: select_row_def option.map_comp comp_def)
  from in_set_mapI [OF ab, where f = "\<lambda>p. Inr (map select_row (take (nat k) p))"]
  show "Inr [?row a, ?row b] \<in> set (sql_query [a, b] q k)"
    unfolding query eq_ab .
  from in_set_mapI [OF ba, where f = "\<lambda>p. Inr (map select_row (take (nat k) p))"]
  show "Inr [?row b, ?row a] \<in> set (sql_query [a, b] q k)"
    unfolding query eq_ba .
qed

text \<open>
  Two rows with the same embedding, equal to the query vector: the result that lists
  the row inserted second before the row inserted first is a result of the query.
\<close>

theorem later_row_first_counterexample:
  "Inr [(2, JStr ''second'', Some (Num 1)), (1, JStr ''first'', Some (Num 1))]
     \<in> set (sql_query
         [\<lparr>sb_id = 1, content = JStr ''first'', embedding = Some [1, 0]\<rparr>,
          \<lparr>sb_id = 2, content = JStr ''second'', embedding = Some [1, 0]\<rparr>] [1, 0] 2)"
proof -
  have keys: "keyed_rows
         [\<lparr>sb_id = 1, content = JStr ''first'', embedding = Some [1, 0]\<rparr>,
          \<lparr>sb_id = 2, content = JStr ''second'', embedding = Some [1, 0]\<rparr>] [1, 0]
      = Inr [(\<lparr>sb_id = 1, content = JStr ''first'', embedding = Some [1, 0]\<rparr>, Some (Num 0)),
             (\<lparr>sb_id = 2, content = JStr ''second'', embedding = Some [1, 0]\<rparr>, Some (Num 0))]"
    by (simp add: distance_op_def cosine_distance_unit)
  show ?thesis
    unfolding sql_query_def keys by (simp add: orderings_def select_row_def)
qed

theorem tied_rows_in_either_order_witness:
  "Inr [(1, JStr ''first'', Some (Num 1)), (2, JStr ''second'', Some (Num 1))]
     \<in> set (sql_query
         [\<lparr>sb_id = 1, content = JStr ''first'', embedding = Some [1, 0]\<rparr>,
          \<lparr>sb_id = 2, content = JStr ''second'', embedding = Some [1, 0]\<rparr>] [1, 0] 2)
 \<and> Inr [(2, JStr ''second'', Some (Num 1)), (1, JStr ''first'', Some (Num 1))]
     \<in> set (sql_query
         [\<lparr>sb_id = 1, content = JStr ''first'', embedding = Some [1, 0]\<rparr>,
          \<lparr>sb_id = 2, content = JStr ''second'', embedding = Some [1, 0]\<rparr>] [1, 0] 2)
 \<and> map (\<lambda>row. snd (snd row)) [(1 :: int, JStr ''first'', Some (Num 1)), (2, JStr ''second'', Some (Num 1))]
   = map (\<lambda>row. snd (snd row)) [(2 :: int, JStr ''second'', Some (Num 1)), (1, JStr ''first'', Some (Num 1))]"
proof -
  let ?a = "\<lparr>sb_id = 1, content = JStr ''first'', embedding = Some [1, 0 :: real]\<rparr>"
  let ?b = "\<lparr>sb_id = 2, content = JStr ''second'', embedding = Some [1, 0 :: real]\<rparr>"
  note inst = tied_rows_in_either_order
    [where tbl = "[?a, ?b]" and q = "[1, 0]" and k = 2 and a = ?a and b = ?b]
  have tie: "(2 :: int) \<le> 2 \<and> embedding ?a = embedding ?b
      \<and> (\<forall>v. embedding ?a = Some v \<longrightarrow> length v = length [1 :: real, 0])"
    by auto
  from inst [THEN conjunct2, rule_format, OF tie]
  have both: "Inr [(1, JStr ''first'', Some (Num 1)), (2, JStr ''second'', Some (Num 1))]
       \<in> set (sql_query [?a, ?b] [1, 0] 2)
     \<and> Inr [(2, JStr ''second'', Some (Num 1)), (1, JStr ''first'', Some (Num 1))]
       \<in> set (sql_query [?a, ?b] [1, 0] 2)"
    by (simp add: cosine_distance_unit)
  from inst [THEN conjunct1, rule_format, OF both] both show ?thesis
    by blast
qed




end
